theory Spec2Isabelle
  imports Main
begin

section \<open>The action dispatcher of src/actions.js\<close>

text \<open>
  The class \<open>Actions\<close> keeps one object, \<open>this.actions\<close>, whose properties are the
  declared actions. Each declared action is a record with an array of subscriber
  callbacks and a slot \<open>func\<close> that is \<open>null\<close> or the registered function. The methods
  are modelled by explicit state passing: each takes the instance and returns what the
  method returned or raised, together with the instance afterwards.
\<close>

subsection \<open>Values, errors and outcomes\<close>

text \<open>
  A function value is a reference; two references are \<open>===\<close> exactly when they are the
  same reference, so a function is modelled by a number naming it.
\<close>

type_synonym fn = nat

datatype val = VUndefined | VNull | VBool bool | VNum int | VStr string | VFun fn

fun typeof :: "val \<Rightarrow> string" where
  "typeof VUndefined = ''undefined''"
| "typeof VNull = ''object''"
| "typeof (VBool b) = ''boolean''"
| "typeof (VNum n) = ''number''"
| "typeof (VStr s) = ''string''"
| "typeof (VFun f) = ''function''"

text \<open>
  \<open>TypeError m\<close> and \<open>Error m\<close> are the two exceptions the source throws, with their
  messages. \<open>RuntimeTypeError\<close> is the \<open>TypeError\<close> the engine itself raises when the
  source reads a property of \<open>undefined\<close>, iterates \<open>undefined\<close>, or calls
  \<open>Object.defineProperty\<close> with a new value for a property that is neither configurable
  nor writable; its message is the engine's own.
\<close>

datatype error = TypeError string | Error string | RuntimeTypeError

datatype 'a outcome = Returned 'a | Raised error

subsection \<open>The instance\<close>

record action =
  subscribers :: "fn list"
  func :: "fn option"

text \<open>
  What \<open>this.actions[key]\<close> evaluates to: \<open>undefined\<close> when the key is found nowhere,
  the action record when the key was declared, and for a key found on the prototype
  chain of the names object (\<open>toString\<close>, \<open>constructor\<close>, ...) the inherited value, a
  function or object that has neither a \<open>func\<close> nor a \<open>subscribers\<close> property.
\<close>

datatype slot = Absent | Declared action | Inherited

text \<open>
  Calls of client functions are observable only from outside the class, so the model
  records them: \<open>HandlerCalled f key data\<close> is the call \<open>action.func(done, data)\<close> of the
  registered function \<open>f\<close>, where \<open>done\<close> is the closure built for \<open>key\<close>;
  \<open>SubscriberCalled each data\<close> is the call \<open>each(data)\<close> of a subscriber. The field
  \<open>trace\<close> lists the calls made so far, oldest first. A subscriber is taken to return
  to the loop that called it without raising and without calling a method of the
  instance; the class itself makes no other assumption about it.
\<close>

datatype event = HandlerCalled fn string val | SubscriberCalled fn val

text \<open>
  \<open>configurable key\<close> is the attribute of the same name of the property \<open>key\<close> of
  \<open>this.actions\<close>. Every property the class defines is not writable; whether
  \<open>Object.defineProperty\<close> may define it once more depends on this attribute alone.
\<close>

record registry =
  actions :: "string \<Rightarrow> slot"
  trace :: "event list"
  configurable :: "string \<Rightarrow> bool"

subsection \<open>The constructor\<close>

text \<open>
  The constructor's argument is an object. \<open>enumerable_keys\<close> are the keys the loop
  \<open>for (const key in actions)\<close> visits (the values are ignored): the object's own
  enumerable keys and the enumerable keys it inherits. \<open>fixed_keys\<close> are those of them
  whose property is not configurable once the constructor has defined it: an inherited
  key, for which \<open>Object.defineProperty\<close> creates an own property with the default
  attributes, and an own key that was not configurable before (as after
  \<open>Object.seal\<close>). \<open>proto_keys\<close> are the keys the object inherits without enumerating
  them. The record stands for the objects on which the constructor returns: on an object
  with an own enumerable key that is neither configurable nor writable (as after
  \<open>Object.freeze\<close>), or on an object that is not extensible and inherits an enumerable
  key, the constructor's own \<open>Object.defineProperty\<close> raises and there is no instance.

  An object literal (with keys other than \<open>__proto__\<close>) inherits the properties of
  \<open>Object.prototype\<close>, none of them enumerable, and its own properties are configurable.
  \<open>Object.create\<close> applied to such a literal gives an object with no key of its own
  that inherits the literal's keys.
\<close>

record names_object =
  enumerable_keys :: "string list"
  fixed_keys :: "string list"
  proto_keys :: "string list"

definition Object_prototype :: "string list" where
  "Object_prototype =
     [''constructor'', ''hasOwnProperty'', ''isPrototypeOf'', ''propertyIsEnumerable'',
      ''toLocaleString'', ''toString'', ''valueOf'', ''__proto__'',
      ''__defineGetter__'', ''__defineSetter__'', ''__lookupGetter__'', ''__lookupSetter__'']"

definition object_literal :: "string list \<Rightarrow> names_object" where
  "object_literal keys =
     \<lparr>enumerable_keys = keys, fixed_keys = [], proto_keys = Object_prototype\<rparr>"

definition object_create_literal :: "string list \<Rightarrow> names_object" where
  "object_create_literal keys =
     \<lparr>enumerable_keys = keys, fixed_keys = keys, proto_keys = Object_prototype\<rparr>"

text \<open>The loop \<open>for (const key in actions)\<close>, defining one fresh record per key.\<close>

fun define_actions :: "string list \<Rightarrow> (string \<Rightarrow> slot) \<Rightarrow> (string \<Rightarrow> slot)" where
  "define_actions [] m = m"
| "define_actions (key # keys) m =
     define_actions keys (m(key := Declared \<lparr>subscribers = [], func = None\<rparr>))"

definition new_Actions :: "names_object \<Rightarrow> registry" where
  "new_Actions obj =
     \<lparr>actions = define_actions (enumerable_keys obj)
                  (\<lambda>key. if key \<in> set (proto_keys obj) then Inherited else Absent),
      trace = [],
      configurable =
        (\<lambda>key. key \<in> set (enumerable_keys obj) \<and> key \<notin> set (fixed_keys obj))\<rparr>"

subsection \<open>registerAsync\<close>

text \<open>
  The two \<open>typeof\<close> tests come first, the key's before the function's; the equations
  are tried in that order. A key found on the prototype chain passes the test
  \<open>this.actions[key] === undefined\<close>, and its \<open>func\<close> is \<open>undefined\<close>, which is not
  \<open>null\<close>. After the four tests \<open>Object.defineProperty\<close> redefines the property with
  a new record whose subscriber array is the literal \<open>[]\<close>; the property is not
  writable, so the engine raises unless it is configurable.
\<close>

fun registerAsync :: "registry \<Rightarrow> val \<Rightarrow> val \<Rightarrow> unit outcome \<times> registry" where
  "registerAsync this (VStr key) (VFun f) =
     (case actions this key of
        Absent \<Rightarrow>
          (Raised (Error ''Actions.registerAsync: action not declared, please add it to the constructor''),
           this)
      | Inherited \<Rightarrow> (Raised (Error ''Actions.registerAsync: action already registered''), this)
      | Declared a \<Rightarrow>
          (if func a \<noteq> None
           then (Raised (Error ''Actions.registerAsync: action already registered''), this)
           else if \<not> configurable this key
           then (Raised RuntimeTypeError, this)
           else (Returned (),
                 this\<lparr>actions := (actions this)
                    (key := Declared \<lparr>subscribers = [], func = Some f\<rparr>)\<rparr>)))"
| "registerAsync this (VStr key) v =
     (Raised (TypeError ''Actions.registerAsync: func argument must be a function''), this)"
| "registerAsync this k v =
     (Raised (TypeError ''Actions.registerAsync: key argument must be a string''), this)"

subsection \<open>publish, the done function and call\<close>

text \<open>The loop \<open>for (const each of action.subscribers) each(data)\<close>.\<close>

fun publish_loop :: "fn list \<Rightarrow> val \<Rightarrow> event list" where
  "publish_loop [] data = []"
| "publish_loop (each # rest) data = SubscriberCalled each data # publish_loop rest data"

definition publish :: "registry \<Rightarrow> string \<Rightarrow> val \<Rightarrow> unit outcome \<times> registry" where
  "publish this key data =
     (case actions this key of
        Absent \<Rightarrow> (Returned (), this)
      | Inherited \<Rightarrow> (Raised RuntimeTypeError, this)
      | Declared a \<Rightarrow>
          (Returned (), this\<lparr>trace := trace this @ publish_loop (subscribers a) data\<rparr>))"

text \<open>
  \<open>buildDoneFunction(key)\<close> returns a closure over the instance and the key; the
  closure publishes to the subscribers the instance has when it is invoked.
\<close>

definition buildDoneFunction :: "string \<Rightarrow> val \<Rightarrow> registry \<Rightarrow> unit outcome \<times> registry" where
  "buildDoneFunction key = (\<lambda>data this. publish this key data)"

text \<open>
  A registered function is client code. What the dispatcher can observe of it is the
  sequence of results it passes to \<open>done\<close> before it returns: \<open>hs f data\<close> is that
  sequence for the function \<open>f\<close> called with \<open>data\<close> (empty when \<open>f\<close> keeps \<open>done\<close> for
  later, or never calls it). A later invocation of \<open>done\<close> is an operation of its own
  (\<open>Done\<close> below).
\<close>

type_synonym handlers = "fn \<Rightarrow> val \<Rightarrow> val list"

fun run_handler ::
  "(val \<Rightarrow> registry \<Rightarrow> unit outcome \<times> registry) \<Rightarrow> val list \<Rightarrow> registry \<Rightarrow> unit outcome \<times> registry"
where
  "run_handler done [] this = (Returned (), this)"
| "run_handler done (result # rest) this =
     (case done result this of
        (Raised e, this') \<Rightarrow> (Raised e, this')
      | (Returned u, this') \<Rightarrow> run_handler done rest this')"

definition call :: "handlers \<Rightarrow> registry \<Rightarrow> string \<Rightarrow> val \<Rightarrow> unit outcome \<times> registry" where
  "call hs this key data =
     (case actions this key of
        Absent \<Rightarrow> (Returned (), this)
      | Inherited \<Rightarrow> publish this key data
      | Declared a \<Rightarrow>
          (case func a of
             Some f \<Rightarrow>
               run_handler (buildDoneFunction key) (hs f data)
                 (this\<lparr>trace := trace this @ [HandlerCalled f key data]\<rparr>)
           | None \<Rightarrow> publish this key data))"

subsection \<open>on and unsubscribe\<close>

text \<open>
  \<open>on\<close> reads \<open>this.actions[key].subscribers\<close> with no test of the key: for an absent
  key the read is of a property of \<open>undefined\<close>, for an inherited key \<open>includes\<close> is
  called on \<open>undefined\<close>.
\<close>

fun on :: "registry \<Rightarrow> val \<Rightarrow> val \<Rightarrow> val outcome \<times> registry" where
  "on this (VStr key) (VFun callback) =
     (case actions this key of
        Absent \<Rightarrow> (Raised RuntimeTypeError, this)
      | Inherited \<Rightarrow> (Raised RuntimeTypeError, this)
      | Declared a \<Rightarrow>
          (if callback \<notin> set (subscribers a)
           then (Returned (VFun callback),
                 this\<lparr>actions := (actions this)
                    (key := Declared (a\<lparr>subscribers := subscribers a @ [callback]\<rparr>))\<rparr>)
           else (Returned VUndefined, this)))"
| "on this (VStr key) v =
     (Raised (TypeError ''Actions.on: callback argument must be a function''), this)"
| "on this k v = (Raised (TypeError ''Actions.on: key argument must be a string''), this)"

text \<open>
  The loop of \<open>unsubscribe\<close>, from index \<open>i\<close>: at the first index whose element is
  \<open>===\<close> the callback, \<open>splice(i, 1)\<close> and return.
\<close>

function unsubscribe_loop :: "fn list \<Rightarrow> val \<Rightarrow> nat \<Rightarrow> fn list" where
  "unsubscribe_loop subs callback i =
     (if i < length subs
      then (if callback = VFun (subs ! i)
            then take i subs @ drop (Suc i) subs
            else unsubscribe_loop subs callback (Suc i))
      else subs)"
  by pat_completeness auto
termination
  by (relation "measure (\<lambda>(subs, callback, i). length subs - i)") auto

declare unsubscribe_loop.simps [simp del]

definition unsubscribe :: "registry \<Rightarrow> string \<Rightarrow> val \<Rightarrow> unit outcome \<times> registry" where
  "unsubscribe this key callback =
     (case actions this key of
        Absent \<Rightarrow> (Returned (), this)
      | Inherited \<Rightarrow> (Raised RuntimeTypeError, this)
      | Declared a \<Rightarrow>
          (Returned (),
           this\<lparr>actions := (actions this)
              (key := Declared (a\<lparr>subscribers := unsubscribe_loop (subscribers a) callback 0\<rparr>))\<rparr>))"

subsection \<open>Sequences of operations\<close>

text \<open>
  The operations a client can perform on an instance; \<open>Done key result\<close> is a call of a
  done function built for \<open>key\<close>, made after the \<open>call\<close> that built it returned.
\<close>

datatype command =
    RegisterAsync val val
  | Call string val
  | Publish string val
  | Done string val
  | On val val
  | Unsubscribe string val

fun step :: "handlers \<Rightarrow> registry \<Rightarrow> command \<Rightarrow> registry" where
  "step hs this (RegisterAsync key f) = snd (registerAsync this key f)"
| "step hs this (Call key data) = snd (call hs this key data)"
| "step hs this (Publish key data) = snd (publish this key data)"
| "step hs this (Done key result) = snd (buildDoneFunction key result this)"
| "step hs this (On key callback) = snd (on this key callback)"
| "step hs this (Unsubscribe key callback) = snd (unsubscribe this key callback)"

fun run :: "handlers \<Rightarrow> registry \<Rightarrow> command list \<Rightarrow> registry" where
  "run hs this [] = this"
| "run hs this (c # cs) = run hs (step hs this c) cs"

subsection \<open>Predicates and examples used in the statements\<close>

text \<open>No declared action lists a subscriber twice.\<close>

definition distinct_subscribers :: "registry \<Rightarrow> bool" where
  "distinct_subscribers this =
     (\<forall>key a. actions this key = Declared a \<longrightarrow> distinct (subscribers a))"


text \<open>
  A handler that passes twice its numeric payload to \<open>done\<close> before it returns, an
  instance with that handler and one subscriber on \<open>load\<close>, and an instance with two
  actions without handlers.
\<close>

definition load_handlers :: handlers where
  "load_handlers f data = (case data of VNum n \<Rightarrow> [VNum (n * 2)] | _ \<Rightarrow> [])"

definition load_registry :: registry where
  "load_registry =
     run load_handlers (new_Actions (object_literal [''load'']))
       [RegisterAsync (VStr ''load'') (VFun 1), On (VStr ''load'') (VFun 7)]"

definition ping_registry :: registry where
  "ping_registry =
     run load_handlers (new_Actions (object_literal [''ping'', ''pong'']))
       [On (VStr ''ping'') (VFun 3), On (VStr ''ping'') (VFun 4), On (VStr ''pong'') (VFun 5)]"

lemmas example_defs =
  load_registry_def ping_registry_def load_handlers_def new_Actions_def object_literal_def
  object_create_literal_def Object_prototype_def

section \<open>Properties of the loops and of the constructor\<close>

text \<open>
  The subscriber loop calls every element of the array once, in array order.
\<close>

lemma publish_loop_map: "publish_loop subs data = map (\<lambda>each. SubscriberCalled each data) subs"
  by (induction subs) simp_all

text \<open>
  The removal loop, started at index \<open>i\<close>, keeps the first \<open>i\<close> elements and removes
  the first element \<open>===\<close> the callback among the others. A callback that is not a
  function is \<open>===\<close> no element.
\<close>

lemma unsubscribe_loop_fun:
  "i \<le> length subs \<Longrightarrow>
   unsubscribe_loop subs (VFun cb) i = take i subs @ remove1 cb (drop i subs)"
proof (induction subs "VFun cb" i rule: unsubscribe_loop.induct)
  case (1 subs i)
  show ?case
  proof (cases "i < length subs")
    case False
    with "1.prems" show ?thesis by (simp add: unsubscribe_loop.simps)
  next
    case True
    then have d: "drop i subs = subs ! i # drop (Suc i) subs"
      by (simp add: Cons_nth_drop_Suc)
    show ?thesis
    proof (cases "cb = subs ! i")
      case True
      with \<open>i < length subs\<close> d show ?thesis by (simp add: unsubscribe_loop.simps)
    next
      case False
      with \<open>i < length subs\<close> have "unsubscribe_loop subs (VFun cb) i = unsubscribe_loop subs (VFun cb) (Suc i)"
        by (simp add: unsubscribe_loop.simps)
      also have "\<dots> = take (Suc i) subs @ remove1 cb (drop (Suc i) subs)"
        using "1.hyps" True False by simp
      also have "\<dots> = take i subs @ remove1 cb (drop i subs)"
        using True False d by (simp add: take_Suc_conv_app_nth)
      finally show ?thesis .
    qed
  qed
qed

lemma unsubscribe_loop_other:
  "\<forall>f. callback \<noteq> VFun f \<Longrightarrow> unsubscribe_loop subs callback i = subs"
  by (induction subs callback i rule: unsubscribe_loop.induct)
     (simp add: unsubscribe_loop.simps)

lemma unsubscribe_loop_0:
  "unsubscribe_loop subs callback 0 =
     (case callback of VFun cb \<Rightarrow> remove1 cb subs | _ \<Rightarrow> subs)"
  by (cases callback) (simp_all add: unsubscribe_loop_fun unsubscribe_loop_other)

lemma distinct_unsubscribe_loop:
  "distinct subs \<Longrightarrow> distinct (unsubscribe_loop subs callback 0)"
  by (simp add: unsubscribe_loop_0 split: val.splits)

text \<open>
  After the constructor, a key reads as a fresh record when it is an enumerable key of
  the names object, as the inherited value when the object inherits it, and as
  \<open>undefined\<close> otherwise.
\<close>

lemma define_actions_apply:
  "define_actions keys m key =
     (if key \<in> set keys then Declared \<lparr>subscribers = [], func = None\<rparr> else m key)"
  by (induction keys arbitrary: m) auto

lemma actions_new_Actions:
  "actions (new_Actions obj) key =
     (if key \<in> set (enumerable_keys obj) then Declared \<lparr>subscribers = [], func = None\<rparr>
      else if key \<in> set (proto_keys obj) then Inherited else Absent)"
  by (simp add: new_Actions_def define_actions_apply)

text \<open>
  The pattern equations of \<open>registerAsync\<close> and \<open>on\<close> are the source's \<open>typeof\<close>
  tests, in the source's order.
\<close>

lemma registerAsync_typeof:
  "typeof key \<noteq> ''string'' \<Longrightarrow>
     registerAsync this key f =
       (Raised (TypeError ''Actions.registerAsync: key argument must be a string''), this)"
  "typeof key = ''string'' \<Longrightarrow> typeof f \<noteq> ''function'' \<Longrightarrow>
     registerAsync this key f =
       (Raised (TypeError ''Actions.registerAsync: func argument must be a function''), this)"
  by (cases key; cases f; simp)+

lemma on_typeof:
  "typeof key \<noteq> ''string'' \<Longrightarrow>
     on this key callback =
       (Raised (TypeError ''Actions.on: key argument must be a string''), this)"
  "typeof key = ''string'' \<Longrightarrow> typeof callback \<noteq> ''function'' \<Longrightarrow>
     on this key callback =
       (Raised (TypeError ''Actions.on: callback argument must be a function''), this)"
  by (cases key; cases callback; simp)+

section \<open>What each operation does to the instance\<close>

lemma publish_Declared:
  "actions this key = Declared a \<Longrightarrow>
   publish this key data =
     (Returned (), this\<lparr>trace := trace this @ map (\<lambda>each. SubscriberCalled each data) (subscribers a)\<rparr>)"
  by (simp add: publish_def publish_loop_map)

lemma run_handler_done:
  "actions this key = Declared a \<Longrightarrow>
   run_handler (buildDoneFunction key) results this =
     (Returned (),
      this\<lparr>trace := trace this @
         concat (map (\<lambda>result. map (\<lambda>each. SubscriberCalled each result) (subscribers a)) results)\<rparr>)"
proof (induction results arbitrary: this)
  case Nil
  then show ?case by simp
next
  case (Cons result rest)
  let ?this' = "this\<lparr>trace := trace this @ map (\<lambda>each. SubscriberCalled each result) (subscribers a)\<rparr>"
  have "actions ?this' key = Declared a" using Cons.prems by simp
  from Cons.IH [OF this] Cons.prems show ?case
    by (simp add: buildDoneFunction_def publish_Declared)
qed

lemma registerAsync_cases:
  "registerAsync this key f = (r, this') \<Longrightarrow>
   this' = this \<or>
   (\<exists>k h a. key = VStr k \<and> f = VFun h \<and> actions this k = Declared a \<and> func a = None \<and>
      r = Returned () \<and>
      this' = this\<lparr>actions := (actions this)(k := Declared \<lparr>subscribers = [], func = Some h\<rparr>)\<rparr>)"
  by (cases "(this, key, f)" rule: registerAsync.cases) (auto split: slot.splits if_splits)

lemma registerAsync_Returned:
  "registerAsync this key f = (Returned u, this') \<Longrightarrow>
   \<exists>k h. key = VStr k \<and> f = VFun h \<and>
     actions this' k = Declared \<lparr>subscribers = [], func = Some h\<rparr>"
  by (cases "(this, key, f)" rule: registerAsync.cases) (auto split: slot.splits if_splits)

lemma on_cases:
  "on this key callback = (r, this') \<Longrightarrow>
   this' = this \<or>
   (\<exists>k cb a. key = VStr k \<and> callback = VFun cb \<and> actions this k = Declared a \<and>
      cb \<notin> set (subscribers a) \<and> r = Returned (VFun cb) \<and>
      this' = this\<lparr>actions := (actions this)
         (k := Declared (a\<lparr>subscribers := subscribers a @ [cb]\<rparr>))\<rparr>)"
  by (cases "(this, key, callback)" rule: on.cases) (auto split: slot.splits if_splits)

lemma on_not_Declared:
  "\<forall>a. actions this key \<noteq> Declared a \<Longrightarrow>
   on this (VStr key) (VFun callback) = (Raised RuntimeTypeError, this)"
  by (cases "actions this key") simp_all

lemma unsubscribe_cases:
  "unsubscribe this key callback = (r, this') \<Longrightarrow>
   this' = this \<or>
   (\<exists>a. actions this key = Declared a \<and> r = Returned () \<and>
      this' = this\<lparr>actions := (actions this)
         (key := Declared (a\<lparr>subscribers := unsubscribe_loop (subscribers a) callback 0\<rparr>))\<rparr>)"
  by (auto simp: unsubscribe_def split: slot.splits)

lemma actions_publish: "actions (snd (publish this key data)) = actions this"
  by (simp add: publish_def split: slot.splits)

lemma run_handler_actions:
  "actions (snd (run_handler (buildDoneFunction key) results this)) = actions this"
proof (induction results arbitrary: this)
  case Nil
  show ?case by simp
next
  case (Cons result rest)
  show ?case
  proof (cases "actions this key")
    case Absent
    then show ?thesis using Cons.IH [of this]
      by (simp add: buildDoneFunction_def publish_def)
  next
    case Inherited
    then show ?thesis by (simp add: buildDoneFunction_def publish_def)
  next
    case (Declared a)
    show ?thesis unfolding run_handler_done [OF Declared] by simp
  qed
qed

lemma actions_call: "actions (snd (call hs this key data)) = actions this"
  by (simp add: call_def actions_publish run_handler_actions split: slot.splits option.splits)

lemma call_Absent: "actions this key = Absent \<Longrightarrow> call hs this key data = (Returned (), this)"
  by (simp add: call_def)

lemma unsubscribe_Absent:
  "actions this key = Absent \<Longrightarrow> unsubscribe this key callback = (Returned (), this)"
  by (simp add: unsubscribe_def)

text \<open>
  One operation leaves \<open>this.actions\<close> as it is, or redefines one declared key in one of
  three ways: \<open>registerAsync\<close> on a key without a function, \<open>on\<close> with a new callback,
  \<open>unsubscribe\<close>.
\<close>

lemma step_cases:
  "actions (step hs this c) = actions this \<or>
   (\<exists>k h a. c = RegisterAsync (VStr k) (VFun h) \<and> actions this k = Declared a \<and> func a = None \<and>
      actions (step hs this c) = (actions this)(k := Declared \<lparr>subscribers = [], func = Some h\<rparr>)) \<or>
   (\<exists>k cb a. actions this k = Declared a \<and> cb \<notin> set (subscribers a) \<and>
      actions (step hs this c) =
        (actions this)(k := Declared (a\<lparr>subscribers := subscribers a @ [cb]\<rparr>))) \<or>
   (\<exists>k callback a. actions this k = Declared a \<and>
      actions (step hs this c) =
        (actions this)(k := Declared (a\<lparr>subscribers := unsubscribe_loop (subscribers a) callback 0\<rparr>)))"
proof (cases c)
  case (RegisterAsync key f)
  obtain r this' where e: "registerAsync this key f = (r, this')"
    by (cases "registerAsync this key f")
  from registerAsync_cases [OF e] show ?thesis
  proof
    assume "this' = this"
    with e RegisterAsync show ?thesis by simp
  next
    assume "\<exists>k h a. key = VStr k \<and> f = VFun h \<and> actions this k = Declared a \<and> func a = None \<and>
      r = Returned () \<and>
      this' = this\<lparr>actions := (actions this)(k := Declared \<lparr>subscribers = [], func = Some h\<rparr>)\<rparr>"
    then obtain k h a where "key = VStr k" "f = VFun h" "actions this k = Declared a" "func a = None"
      "this' = this\<lparr>actions := (actions this)(k := Declared \<lparr>subscribers = [], func = Some h\<rparr>)\<rparr>"
      by blast
    with e RegisterAsync have "c = RegisterAsync (VStr k) (VFun h) \<and> actions this k = Declared a \<and>
      func a = None \<and>
      actions (step hs this c) = (actions this)(k := Declared \<lparr>subscribers = [], func = Some h\<rparr>)"
      by simp
    then show ?thesis by blast
  qed
next
  case (Call key data)
  then show ?thesis by (simp add: actions_call)
next
  case (Publish key data)
  then show ?thesis by (simp add: actions_publish)
next
  case (Done key result)
  then show ?thesis by (simp add: buildDoneFunction_def actions_publish)
next
  case (On key callback)
  obtain r this' where e: "on this key callback = (r, this')" by (cases "on this key callback")
  from on_cases [OF e] show ?thesis
  proof
    assume "this' = this"
    with e On show ?thesis by simp
  next
    assume "\<exists>k cb a. key = VStr k \<and> callback = VFun cb \<and> actions this k = Declared a \<and>
      cb \<notin> set (subscribers a) \<and> r = Returned (VFun cb) \<and>
      this' = this\<lparr>actions := (actions this)
         (k := Declared (a\<lparr>subscribers := subscribers a @ [cb]\<rparr>))\<rparr>"
    then obtain k cb a where "actions this k = Declared a" "cb \<notin> set (subscribers a)"
      "this' = this\<lparr>actions := (actions this)
         (k := Declared (a\<lparr>subscribers := subscribers a @ [cb]\<rparr>))\<rparr>"
      by blast
    with e On have "actions this k = Declared a \<and> cb \<notin> set (subscribers a) \<and>
      actions (step hs this c) =
        (actions this)(k := Declared (a\<lparr>subscribers := subscribers a @ [cb]\<rparr>))"
      by simp
    then show ?thesis by blast
  qed
next
  case (Unsubscribe key callback)
  obtain r this' where e: "unsubscribe this key callback = (r, this')"
    by (cases "unsubscribe this key callback")
  from unsubscribe_cases [OF e] show ?thesis
  proof
    assume "this' = this"
    with e Unsubscribe show ?thesis by simp
  next
    assume "\<exists>a. actions this key = Declared a \<and> r = Returned () \<and>
      this' = this\<lparr>actions := (actions this)
         (key := Declared (a\<lparr>subscribers := unsubscribe_loop (subscribers a) callback 0\<rparr>))\<rparr>"
    then obtain a where "actions this key = Declared a"
      "this' = this\<lparr>actions := (actions this)
         (key := Declared (a\<lparr>subscribers := unsubscribe_loop (subscribers a) callback 0\<rparr>))\<rparr>"
      by blast
    with e Unsubscribe have "actions this key = Declared a \<and>
      actions (step hs this c) =
        (actions this)(key := Declared (a\<lparr>subscribers := unsubscribe_loop (subscribers a) callback 0\<rparr>))"
      by simp
    then show ?thesis by blast
  qed
qed

section \<open>Invariants of sequences of operations\<close>

text \<open>
  What a key reads as (\<open>undefined\<close>, an action record, an inherited value) never
  changes; a registered function stays; without a \<open>registerAsync\<close> for the key the slot
  stays \<open>null\<close>; no subscriber array gets a duplicate.
\<close>

lemma step_Absent: "actions this key = Absent \<Longrightarrow> actions (step hs this c) key = Absent"
  using step_cases [of hs this c] by auto

lemma step_Inherited: "actions this key = Inherited \<Longrightarrow> actions (step hs this c) key = Inherited"
  using step_cases [of hs this c] by auto

lemma step_Declared:
  "actions this key = Declared a \<Longrightarrow> \<exists>a'. actions (step hs this c) key = Declared a'"
  using step_cases [of hs this c] by auto



lemma step_distinct_subscribers:
  "distinct_subscribers this \<Longrightarrow> distinct_subscribers (step hs this c)"
  using step_cases [of hs this c]
  unfolding distinct_subscribers_def
  by (auto simp: distinct_unsubscribe_loop split: if_splits)

lemma run_Absent: "actions this key = Absent \<Longrightarrow> actions (run hs this cmds) key = Absent"
  by (induction cmds arbitrary: this) (simp_all add: step_Absent)

lemma run_Inherited: "actions this key = Inherited \<Longrightarrow> actions (run hs this cmds) key = Inherited"
  by (induction cmds arbitrary: this) (simp_all add: step_Inherited)

lemma run_Declared:
  "actions this key = Declared a \<Longrightarrow> \<exists>a'. actions (run hs this cmds) key = Declared a'"
proof (induction cmds arbitrary: this a)
  case Nil
  then show ?case by simp
next
  case (Cons c cmds)
  from step_Declared [OF Cons.prems] obtain a' where "actions (step hs this c) key = Declared a'" ..
  from Cons.IH [OF this] show ?case by simp
qed



lemma run_distinct_subscribers:
  "distinct_subscribers this \<Longrightarrow> distinct_subscribers (run hs this cmds)"
  by (induction cmds arbitrary: this) (simp_all add: step_distinct_subscribers)

lemma distinct_subscribers_new_Actions: "distinct_subscribers (new_Actions obj)"
  by (auto simp: distinct_subscribers_def actions_new_Actions split: if_splits)

lemma reachable_distinct:
  "actions (run hs (new_Actions obj) cmds) key = Declared a \<Longrightarrow> distinct (subscribers a)"
  using run_distinct_subscribers [OF distinct_subscribers_new_Actions, of hs obj cmds]
  by (simp add: distinct_subscribers_def)







subsection \<open>Counting calls\<close>

lemma count_list_SubscriberCalled:
  "count_list (map (\<lambda>each. SubscriberCalled each data) subs) (SubscriberCalled cb data) =
     count_list subs cb"
  by (induction subs) simp_all

lemma count_list_distinct:
  "distinct xs \<Longrightarrow> count_list xs x = (if x \<in> set xs then 1 else 0)"
  by (induction xs) auto

lemma filter_neq_absent: "x \<notin> set xs \<Longrightarrow> filter (\<lambda>y. y \<noteq> x) xs = xs"
  by (induction xs) auto

lemma remove1_distinct_filter:
  "distinct xs \<Longrightarrow> remove1 x xs = filter (\<lambda>y. y \<noteq> x) xs"
  by (induction xs) (auto simp: filter_neq_absent)

section \<open>The claims\<close>

text \<open>
  Claim C1 (registerAsync keeps the subscriber list). The source does not: the record
  that \<open>registerAsync\<close> defines has the array literal \<open>[]\<close> for its subscribers. With
  one action \<open>a\<close>, after \<open>on('a', cb)\<close> the subscriber list is \<open>[cb]\<close>; the following
  \<open>registerAsync('a', f)\<close> returns, the list is then empty, and a publish for \<open>a\<close> calls
  nothing.
\<close>

theorem registerAsync_discards_subscribers:
  "actions (run load_handlers (new_Actions (object_literal [''a''])) [On (VStr ''a'') (VFun 7)]) ''a''
     = Declared \<lparr>subscribers = [7], func = None\<rparr>
   \<and> fst (registerAsync
          (run load_handlers (new_Actions (object_literal [''a''])) [On (VStr ''a'') (VFun 7)])
          (VStr ''a'') (VFun 1)) = Returned ()
   \<and> actions (run load_handlers (new_Actions (object_literal [''a'']))
          [On (VStr ''a'') (VFun 7), RegisterAsync (VStr ''a'') (VFun 1)]) ''a''
     = Declared \<lparr>subscribers = [], func = Some 1\<rparr>
   \<and> trace (run load_handlers (new_Actions (object_literal [''a'']))
          [On (VStr ''a'') (VFun 7), RegisterAsync (VStr ''a'') (VFun 1), Publish ''a'' (VNum 5)])
     = []"
  by (simp add: example_defs publish_def)

text \<open>
  Claim C2 (call and unsubscribe on a name that was not declared do nothing and raise
  nothing). For a name that is found nowhere this holds (\<open>call_Absent\<close>,
  \<open>unsubscribe_Absent\<close>); the first conjunct below is the instance \<open>call('y', 1)\<close>. For a
  name the names object inherits it fails: on an instance made from the literal
  \<open>{ x: null }\<close>, \<open>toString\<close> passes the test \<open>if (action)\<close>, and both \<open>call\<close> and
  \<open>unsubscribe\<close> raise the engine's TypeError on the missing \<open>subscribers\<close>.
\<close>

theorem call_unsubscribe_inherited_name_raise:
  "call load_handlers (new_Actions (object_literal [''x''])) ''y'' (VNum 1)
     = (Returned (), new_Actions (object_literal [''x'']))
   \<and> ''toString'' \<notin> set [''x'']
   \<and> call load_handlers (new_Actions (object_literal [''x''])) ''toString'' (VNum 1)
     = (Raised RuntimeTypeError, new_Actions (object_literal [''x'']))
   \<and> unsubscribe (new_Actions (object_literal [''x''])) ''toString'' (VFun 0)
     = (Raised RuntimeTypeError, new_Actions (object_literal [''x'']))"
  by (simp add: example_defs call_def publish_def unsubscribe_def)

text \<open>
  Claim C3 (on with a name that was not declared fails with a state error). The source
  reads \<open>this.actions[key].subscribers\<close> with no test: on an instance made from
  \<open>{ x: null }\<close>, \<open>on('y', cb)\<close> raises the engine's TypeError, where \<open>registerAsync\<close>
  with the same name throws its \<open>Error\<close> for an action that is not declared.
\<close>

theorem on_undeclared_name_runtime_TypeError:
  "on (new_Actions (object_literal [''x''])) (VStr ''y'') (VFun 0)
     = (Raised RuntimeTypeError, new_Actions (object_literal [''x'']))
   \<and> registerAsync (new_Actions (object_literal [''x''])) (VStr ''y'') (VFun 0)
     = (Raised (Error ''Actions.registerAsync: action not declared, please add it to the constructor''),
        new_Actions (object_literal [''x'']))"
  by (simp add: example_defs)

text \<open>
  Claim C4 (a call with a handler). When the action has the function \<open>h\<close>, \<open>call\<close>
  calls \<open>h\<close> with the done function of the key and the payload and returns; the only
  subscriber calls it makes are those of the results \<open>h\<close> passes to \<open>done\<close>, one call of
  every subscriber per result, with that result as argument, after the call of \<open>h\<close>.
  When \<open>h\<close> passes nothing to \<open>done\<close>, no subscriber is called. The second conjunct is
  a call of the done function by itself: it calls every subscriber with the result.
\<close>

theorem call_with_handler:
  assumes "actions this key = Declared a" and "func a = Some h"
  shows "call hs this key payload =
      (Returned (),
       this\<lparr>trace := trace this @ HandlerCalled h key payload #
          concat (map (\<lambda>result. map (\<lambda>each. SubscriberCalled each result) (subscribers a))
                    (hs h payload))\<rparr>)
    \<and> buildDoneFunction key result this =
      (Returned (),
       this\<lparr>trace := trace this @ map (\<lambda>each. SubscriberCalled each result) (subscribers a)\<rparr>)"
proof
  let ?this' = "this\<lparr>trace := trace this @ [HandlerCalled h key payload]\<rparr>"
  have "actions ?this' key = Declared a" using assms(1) by simp
  from run_handler_done [OF this] assms
  show "call hs this key payload =
      (Returned (),
       this\<lparr>trace := trace this @ HandlerCalled h key payload #
          concat (map (\<lambda>result. map (\<lambda>each. SubscriberCalled each result) (subscribers a))
                    (hs h payload))\<rparr>)"
    by (simp add: call_def)
next
  from assms(1)
  show "buildDoneFunction key result this =
      (Returned (),
       this\<lparr>trace := trace this @ map (\<lambda>each. SubscriberCalled each result) (subscribers a)\<rparr>)"
    by (simp add: buildDoneFunction_def publish_Declared)
qed

theorem call_with_handler_witness:
  "actions load_registry ''load'' = Declared \<lparr>subscribers = [7], func = Some 1\<rparr>
   \<and> fst (call load_handlers load_registry ''load'' (VNum 5)) = Returned ()
   \<and> trace (snd (call load_handlers load_registry ''load'' (VNum 5)))
     = [HandlerCalled 1 ''load'' (VNum 5), SubscriberCalled 7 (VNum 10)]
   \<and> trace (snd (buildDoneFunction ''load'' (VNum 8) load_registry))
     = [SubscriberCalled 7 (VNum 8)]"
proof -
  have d: "actions load_registry ''load'' = Declared \<lparr>subscribers = [7], func = Some 1\<rparr>"
    by (simp add: example_defs)
  have t: "trace load_registry = []"
    by (simp add: example_defs)
  from call_with_handler [OF d, of 1 load_handlers "VNum 5" "VNum 8"] d t
  show ?thesis by (simp add: load_handlers_def)
qed

text \<open>
  Claim C5 (a call without a handler). On an instance produced by any sequence of
  operations, when the action has no function, \<open>call\<close> returns after calling the
  subscribers in array order with the payload as the argument, and the calls it made
  contain exactly one call of each subscriber and none of any other function.
\<close>

theorem call_without_handler:
  assumes "this = run hs (new_Actions obj) cmds"
    and "actions this key = Declared a" and "func a = None"
  shows "call hs this key payload =
      (Returned (),
       this\<lparr>trace := trace this @ map (\<lambda>each. SubscriberCalled each payload) (subscribers a)\<rparr>)
    \<and> (\<forall>cb. count_list (map (\<lambda>each. SubscriberCalled each payload) (subscribers a))
              (SubscriberCalled cb payload) = (if cb \<in> set (subscribers a) then 1 else 0))"
proof -
  have "distinct (subscribers a)"
    using assms(1,2) reachable_distinct by blast
  then have "\<forall>cb. count_list (map (\<lambda>each. SubscriberCalled each payload) (subscribers a))
              (SubscriberCalled cb payload) = (if cb \<in> set (subscribers a) then 1 else 0)"
    by (simp add: count_list_SubscriberCalled count_list_distinct)
  moreover have "call hs this key payload =
      (Returned (),
       this\<lparr>trace := trace this @ map (\<lambda>each. SubscriberCalled each payload) (subscribers a)\<rparr>)"
    using assms(2,3) by (simp add: call_def publish_Declared)
  ultimately show ?thesis by blast
qed

theorem call_without_handler_witness:
  "actions ping_registry ''ping'' = Declared \<lparr>subscribers = [3, 4], func = None\<rparr>
   \<and> fst (call load_handlers ping_registry ''ping'' VUndefined) = Returned ()
   \<and> trace (snd (call load_handlers ping_registry ''ping'' VUndefined))
     = [SubscriberCalled 3 VUndefined, SubscriberCalled 4 VUndefined]
   \<and> count_list [SubscriberCalled 3 VUndefined, SubscriberCalled 4 VUndefined]
        (SubscriberCalled 4 VUndefined) = 1"
proof -
  have d: "actions ping_registry ''ping'' = Declared \<lparr>subscribers = [3, 4], func = None\<rparr>"
    by (simp add: example_defs)
  have t: "trace ping_registry = []"
    by (simp add: example_defs)
  from call_without_handler [OF ping_registry_def d, where payload = VUndefined] d t
  show ?thesis by simp
qed




text \<open>
  Claim C7 (subscriber order). When three distinct callbacks that are not yet
  subscribed are added to a declared action by \<open>on\<close> in the order \<open>cb1\<close>, \<open>cb2\<close>,
  \<open>cb3\<close>, a publish for the action calls the earlier subscribers and then \<open>cb1\<close>,
  \<open>cb2\<close>, \<open>cb3\<close>, in that order.
\<close>

theorem publish_in_subscription_order:
  assumes "actions this key = Declared a"
    and "distinct [cb1, cb2, cb3]"
    and "cb1 \<notin> set (subscribers a)" and "cb2 \<notin> set (subscribers a)"
    and "cb3 \<notin> set (subscribers a)"
  shows "publish
      (run hs this [On (VStr key) (VFun cb1), On (VStr key) (VFun cb2), On (VStr key) (VFun cb3)])
      key data =
    (Returned (),
     (run hs this [On (VStr key) (VFun cb1), On (VStr key) (VFun cb2), On (VStr key) (VFun cb3)])
       \<lparr>trace := trace this @ map (\<lambda>each. SubscriberCalled each data) (subscribers a) @
          [SubscriberCalled cb1 data, SubscriberCalled cb2 data, SubscriberCalled cb3 data]\<rparr>)"
  using assms by (simp add: publish_def publish_loop_map)

theorem publish_in_subscription_order_witness:
  "trace (snd (publish
      (run load_handlers (new_Actions (object_literal [''a'']))
         [On (VStr ''a'') (VFun 1), On (VStr ''a'') (VFun 2), On (VStr ''a'') (VFun 3)])
      ''a'' (VNum 9)))
   = [SubscriberCalled 1 (VNum 9), SubscriberCalled 2 (VNum 9), SubscriberCalled 3 (VNum 9)]"
proof -
  have d: "actions (new_Actions (object_literal [''a''])) ''a''
      = Declared \<lparr>subscribers = [], func = None\<rparr>"
    by (simp add: example_defs)
  have "distinct [1::nat, 2, 3]" by simp
  from publish_in_subscription_order [OF d this, of load_handlers "VNum 9"]
  show ?thesis by (simp add: new_Actions_def)
qed

text \<open>
  Claim C8 (subscribing twice). On an instance produced by any sequence of operations,
  for a declared action: the first \<open>on\<close> with \<open>cb\<close> returns \<open>cb\<close> when it was not yet
  subscribed (and \<open>undefined\<close> when it was), the second returns \<open>undefined\<close> and changes
  nothing, the subscriber list then has exactly one entry \<open>cb\<close>, and a publish calls
  \<open>cb\<close> exactly once.
\<close>

theorem on_twice_one_entry:
  assumes "this = run hs (new_Actions obj) cmds" and "actions this key = Declared a"
  shows "\<exists>this1 a1.
      on this (VStr key) (VFun cb) =
        (if cb \<in> set (subscribers a) then Returned VUndefined else Returned (VFun cb), this1)
    \<and> on this1 (VStr key) (VFun cb) = (Returned VUndefined, this1)
    \<and> actions this1 key = Declared a1
    \<and> count_list (subscribers a1) cb = 1
    \<and> publish this1 key data =
        (Returned (),
         this1\<lparr>trace := trace this1 @ map (\<lambda>each. SubscriberCalled each data) (subscribers a1)\<rparr>)
    \<and> count_list (map (\<lambda>each. SubscriberCalled each data) (subscribers a1))
         (SubscriberCalled cb data) = 1"
proof -
  have d: "distinct (subscribers a)"
    using assms reachable_distinct by blast
  show ?thesis
  proof (cases "cb \<in> set (subscribers a)")
    case True
    with d have "count_list (subscribers a) cb = 1" by (simp add: count_list_distinct)
    with True assms(2) show ?thesis
      by (simp add: publish_Declared count_list_SubscriberCalled)
  next
    case False
    let ?a1 = "a\<lparr>subscribers := subscribers a @ [cb]\<rparr>"
    let ?s1 = "this\<lparr>actions := (actions this)(key := Declared ?a1)\<rparr>"
    from False d have "count_list (subscribers ?a1) cb = 1" by (simp add: count_list_distinct)
    moreover have "actions ?s1 key = Declared ?a1" by simp
    moreover from False assms(2)
    have "on this (VStr key) (VFun cb) = (Returned (VFun cb), ?s1)" by simp
    moreover have "on ?s1 (VStr key) (VFun cb) = (Returned VUndefined, ?s1)" by simp
    ultimately show ?thesis
      using False publish_Declared [of ?s1 key ?a1 data]
      by (simp add: count_list_SubscriberCalled)
  qed
qed

theorem on_twice_one_entry_witness:
  "on (new_Actions (object_literal [''a''])) (VStr ''a'') (VFun 7)
     = (Returned (VFun 7), snd (on (new_Actions (object_literal [''a''])) (VStr ''a'') (VFun 7)))
   \<and> fst (on (snd (on (new_Actions (object_literal [''a''])) (VStr ''a'') (VFun 7)))
          (VStr ''a'') (VFun 7)) = Returned VUndefined
   \<and> actions (snd (on (snd (on (new_Actions (object_literal [''a''])) (VStr ''a'') (VFun 7)))
          (VStr ''a'') (VFun 7))) ''a'' = Declared \<lparr>subscribers = [7], func = None\<rparr>"
proof -
  have r: "new_Actions (object_literal [''a'']) =
      run load_handlers (new_Actions (object_literal [''a''])) []"
    by simp
  have d: "actions (new_Actions (object_literal [''a''])) ''a''
      = Declared \<lparr>subscribers = [], func = None\<rparr>"
    by (simp add: example_defs)
  from on_twice_one_entry [OF r d, of 7 "VNum 0"] d
  show ?thesis by auto
qed

text \<open>
  Claim C9 (unsubscribe). On an instance produced by any sequence of operations, for a
  declared action: \<open>unsubscribe\<close> returns and removes the first entry equal to the
  callback; the list that remains is the old list without the callback, in the old
  order; a publish that follows calls exactly those subscribers, so it does not call
  the callback; and when the callback was not subscribed the instance is unchanged.
\<close>

theorem unsubscribe_removes_callback:
  assumes "this = run hs (new_Actions obj) cmds" and "actions this key = Declared a"
  shows "unsubscribe this key (VFun cb) =
      (Returned (),
       this\<lparr>actions := (actions this)
          (key := Declared (a\<lparr>subscribers := remove1 cb (subscribers a)\<rparr>))\<rparr>)
    \<and> remove1 cb (subscribers a) = filter (\<lambda>each. each \<noteq> cb) (subscribers a)
    \<and> publish (snd (unsubscribe this key (VFun cb))) key data =
      (Returned (),
       (snd (unsubscribe this key (VFun cb)))
         \<lparr>trace := trace this @
            map (\<lambda>each. SubscriberCalled each data)
              (filter (\<lambda>each. each \<noteq> cb) (subscribers a))\<rparr>)
    \<and> (cb \<notin> set (subscribers a) \<longrightarrow> unsubscribe this key (VFun cb) = (Returned (), this))"
proof -
  have d: "distinct (subscribers a)"
    using assms reachable_distinct by blast
  have u: "unsubscribe this key (VFun cb) =
      (Returned (),
       this\<lparr>actions := (actions this)
          (key := Declared (a\<lparr>subscribers := remove1 cb (subscribers a)\<rparr>))\<rparr>)"
    using assms(2) by (simp add: unsubscribe_def unsubscribe_loop_0)
  have f: "remove1 cb (subscribers a) = filter (\<lambda>each. each \<noteq> cb) (subscribers a)"
    using d by (rule remove1_distinct_filter)
  have p: "publish (snd (unsubscribe this key (VFun cb))) key data =
      (Returned (),
       (snd (unsubscribe this key (VFun cb)))
         \<lparr>trace := trace this @
            map (\<lambda>each. SubscriberCalled each data)
              (filter (\<lambda>each. each \<noteq> cb) (subscribers a))\<rparr>)"
    unfolding u by (simp add: publish_def publish_loop_map f)
  have n: "cb \<notin> set (subscribers a) \<longrightarrow> unsubscribe this key (VFun cb) = (Returned (), this)"
  proof
    assume "cb \<notin> set (subscribers a)"
    then have "remove1 cb (subscribers a) = subscribers a" by (simp add: remove1_idem)
    moreover have "(actions this)(key := Declared a) = actions this"
      using assms(2) by (simp add: fun_upd_idem)
    ultimately show "unsubscribe this key (VFun cb) = (Returned (), this)"
      unfolding u by simp
  qed
  from u f p n show ?thesis by blast
qed

theorem unsubscribe_removes_callback_witness:
  "actions ping_registry ''ping'' = Declared \<lparr>subscribers = [3, 4], func = None\<rparr>
   \<and> fst (unsubscribe ping_registry ''ping'' (VFun 3)) = Returned ()
   \<and> actions (snd (unsubscribe ping_registry ''ping'' (VFun 3))) ''ping''
     = Declared \<lparr>subscribers = [4], func = None\<rparr>
   \<and> trace (snd (publish (snd (unsubscribe ping_registry ''ping'' (VFun 3))) ''ping'' (VNum 2)))
     = [SubscriberCalled 4 (VNum 2)]
   \<and> unsubscribe ping_registry ''ping'' (VFun 9) = (Returned (), ping_registry)"
proof -
  have d: "actions ping_registry ''ping'' = Declared \<lparr>subscribers = [3, 4], func = None\<rparr>"
    by (simp add: example_defs)
  have t: "trace ping_registry = []"
    by (simp add: example_defs)
  note A = unsubscribe_removes_callback [OF ping_registry_def d, where cb = 3 and data = "VNum 2"]
  note B = unsubscribe_removes_callback [OF ping_registry_def d, where cb = 9 and data = "VNum 2"]
  from A have u: "unsubscribe ping_registry ''ping'' (VFun 3) =
      (Returned (),
       ping_registry\<lparr>actions := (actions ping_registry)
          (''ping'' := Declared \<lparr>subscribers = [4], func = None\<rparr>)\<rparr>)"
    by simp
  from A have "publish (snd (unsubscribe ping_registry ''ping'' (VFun 3))) ''ping'' (VNum 2) =
      (Returned (),
       (snd (unsubscribe ping_registry ''ping'' (VFun 3)))
         \<lparr>trace := trace ping_registry @
            map (\<lambda>each. SubscriberCalled each (VNum 2))
              (filter (\<lambda>each. each \<noteq> 3)
                 (subscribers \<lparr>subscribers = [3, 4], func = None\<rparr>))\<rparr>)"
    by blast
  then have p: "trace (snd (publish (snd (unsubscribe ping_registry ''ping'' (VFun 3))) ''ping''
      (VNum 2))) = [SubscriberCalled 4 (VNum 2)]"
    by (simp add: t)
  from B have "9 \<notin> set (subscribers \<lparr>subscribers = [3, 4], func = None\<rparr>) \<longrightarrow>
      unsubscribe ping_registry ''ping'' (VFun 9) = (Returned (), ping_registry)"
    by blast
  then have n: "unsubscribe ping_registry ''ping'' (VFun 9) = (Returned (), ping_registry)"
    by simp
  from d u p n show ?thesis by simp
qed

text \<open>
  Claim C10 (other actions are untouched). Whatever \<open>registerAsync\<close>, \<open>on\<close> and
  \<open>unsubscribe\<close> for the key \<open>a\<close> do or raise, every other key \<open>b\<close> reads afterwards
  as it did before: the same subscriber list and the same function slot.
\<close>

theorem operations_leave_other_actions:
  assumes "a \<noteq> b"
  shows "actions (snd (registerAsync this (VStr a) f)) b = actions this b
    \<and> actions (snd (on this (VStr a) callback)) b = actions this b
    \<and> actions (snd (unsubscribe this a callback)) b = actions this b"
proof (intro conjI)
  obtain r this' where e: "registerAsync this (VStr a) f = (r, this')"
    by (cases "registerAsync this (VStr a) f")
  from registerAsync_cases [OF e] e assms
  show "actions (snd (registerAsync this (VStr a) f)) b = actions this b" by auto
next
  obtain r this' where e: "on this (VStr a) callback = (r, this')"
    by (cases "on this (VStr a) callback")
  from on_cases [OF e] e assms
  show "actions (snd (on this (VStr a) callback)) b = actions this b" by auto
next
  from assms show "actions (snd (unsubscribe this a callback)) b = actions this b"
    by (simp add: unsubscribe_def split: slot.splits)
qed

theorem operations_leave_other_actions_witness:
  "''ping'' \<noteq> ''pong''
   \<and> actions ping_registry ''pong'' = Declared \<lparr>subscribers = [5], func = None\<rparr>
   \<and> actions (snd (registerAsync ping_registry (VStr ''ping'') (VFun 1))) ''pong''
     = Declared \<lparr>subscribers = [5], func = None\<rparr>
   \<and> actions (snd (on ping_registry (VStr ''ping'') (VFun 5))) ''pong''
     = Declared \<lparr>subscribers = [5], func = None\<rparr>
   \<and> actions (snd (unsubscribe ping_registry ''ping'' (VFun 3))) ''pong''
     = Declared \<lparr>subscribers = [5], func = None\<rparr>"
proof -
  have n: "''ping'' \<noteq> ''pong''" by simp
  have d: "actions ping_registry ''pong'' = Declared \<lparr>subscribers = [5], func = None\<rparr>"
    by (simp add: example_defs)
  from operations_leave_other_actions [OF n, of ping_registry "VFun 1"]
    operations_leave_other_actions [OF n, of ping_registry _ "VFun 5"]
    operations_leave_other_actions [OF n, of ping_registry _ "VFun 3"] n d
  show ?thesis by simp
qed

end
